theory Spec2Isabelle
  imports Complex_Main "HOL-Library.Word"
begin

section \<open>FocusTasks: the closure store and the summary of \<^verbatim>\<open>src/app.js\<close>\<close>

text \<open>
  The development embeds \<^verbatim>\<open>createStore\<close> (with its private \<^verbatim>\<open>persist\<close> and
  its public \<^verbatim>\<open>add\<close>, \<^verbatim>\<open>toggle\<close>, \<^verbatim>\<open>remove\<close>, \<^verbatim>\<open>list\<close>) and
  \<^verbatim>\<open>summarize\<close>. The closure also declares \<^verbatim>\<open>init\<close>, which no statement
  calls; it takes part in no run and has no definition here. The rendering and event
  code is not modelled.

  Values follow the data model of the specification: an id and a title are strings, a
  done flag is a boolean; the argument of \<^verbatim>\<open>add\<close> may leave \<^verbatim>\<open>title\<close> and
  \<^verbatim>\<open>done\<close> out. Arrays and task objects live in an explicit heap, because the code
  hands out references and one of the properties is about their aliasing.
\<close>

subsection \<open>Strings\<close>

text \<open>A JavaScript string is a sequence of 16-bit code units.\<close>

type_synonym jsstring = "16 word list"

definition js :: "string \<Rightarrow> jsstring" where
  "js s = map of_char s"

text \<open>
  \<^verbatim>\<open>String.prototype.trim\<close> strips white space and line terminators from both ends:
  TAB, LF, VT, FF, CR, SP, NBSP, the other space separators of Unicode, LS, PS and the
  byte order mark.
\<close>

definition isWhiteSpace :: "16 word \<Rightarrow> bool" where
  "isWhiteSpace c \<longleftrightarrow>
     c = 0x09 \<or> c = 0x0A \<or> c = 0x0B \<or> c = 0x0C \<or> c = 0x0D \<or> c = 0x20 \<or> c = 0xA0 \<or>
     c = 0x1680 \<or> (0x2000 \<le> c \<and> c \<le> 0x200A) \<or> c = 0x2028 \<or> c = 0x2029 \<or>
     c = 0x202F \<or> c = 0x205F \<or> c = 0x3000 \<or> c = 0xFEFF"

definition trim :: "jsstring \<Rightarrow> jsstring" where
  "trim s = rev (dropWhile isWhiteSpace (rev (dropWhile isWhiteSpace s)))"

subsection \<open>Tasks, errors, the heap\<close>

text \<open>The stored task \<^verbatim>\<open>{ id, title, done }\<close>.\<close>

record task =
  task_id :: jsstring
  task_title :: jsstring
  task_done :: bool

text \<open>
  The argument object of \<^verbatim>\<open>add\<close>: \<^verbatim>\<open>title\<close> and \<^verbatim>\<open>done\<close> may be absent
  (\<^verbatim>\<open>undefined\<close>), which is \<open>None\<close>.
\<close>

record candidate =
  arg_id :: jsstring
  arg_title :: "jsstring option"
  arg_done :: "bool option"

datatype js_error =
    Error jsstring
  | SyntaxError
  | DOMException

type_synonym addr = nat

text \<open>
  The heap holds the task objects and the arrays of references to them. A reference is
  the index of its cell; allocation appends a cell, so a new reference differs from every
  reference that exists. JavaScript has no dangling references: every reference the
  program holds is below the length of its heap (the predicate \<open>well_formed\<close> below).
\<close>

record heap =
  objects :: "task list"
  arrays :: "addr list list"

definition alloc_object :: "task \<Rightarrow> heap \<Rightarrow> addr \<times> heap" where
  "alloc_object t h = (length (objects h), h\<lparr>objects := objects h @ [t]\<rparr>)"

definition alloc_array :: "addr list \<Rightarrow> heap \<Rightarrow> addr \<times> heap" where
  "alloc_array as h = (length (arrays h), h\<lparr>arrays := arrays h @ [as]\<rparr>)"

text \<open>The task list an array reference denotes: its elements, in order, by value.\<close>

definition view :: "heap \<Rightarrow> addr \<Rightarrow> task list" where
  "view h r = map (\<lambda>a. objects h ! a) (arrays h ! r)"

text \<open>
  \<^verbatim>\<open>Array.prototype.map\<close> with a callback that may allocate: the callback gets the
  element and the heap, and returns the new element and the new heap.
\<close>

fun array_map :: "(addr \<Rightarrow> heap \<Rightarrow> addr \<times> heap) \<Rightarrow> addr list \<Rightarrow> heap \<Rightarrow> addr list \<times> heap" where
  "array_map f [] h = ([], h)"
| "array_map f (a # as) h =
     (case f a h of (b, h1) \<Rightarrow>
        (case array_map f as h1 of (bs, h2) \<Rightarrow> (b # bs, h2)))"

subsection \<open>The storage backend and the console\<close>

text \<open>
  \<^verbatim>\<open>localStorage\<close>: the items, and whether the host refuses access (storage disabled,
  quota exceeded), in which case \<^verbatim>\<open>getItem\<close> and \<^verbatim>\<open>setItem\<close> throw.
\<close>

record backend =
  items :: "jsstring \<Rightarrow> jsstring option"
  refuses :: bool

definition getItem :: "backend \<Rightarrow> jsstring \<Rightarrow> js_error + jsstring option" where
  "getItem b k = (if refuses b then Inl DOMException else Inr (items b k))"

definition setItem :: "backend \<Rightarrow> jsstring \<Rightarrow> jsstring \<Rightarrow> js_error + backend" where
  "setItem b k v = (if refuses b then Inl DOMException else Inr (b\<lparr>items := (items b)(k \<mapsto> v)\<rparr>))"

text \<open>Everything outside the closure: the heap, the backend, the lines of \<^verbatim>\<open>console.error\<close>.\<close>

record world =
  heap :: heap
  localStorage :: backend
  console :: "(jsstring \<times> js_error) list"

text \<open>The closure of \<^verbatim>\<open>createStore\<close>: its parameter and its private variable.\<close>

record store =
  storageKey :: jsstring
  tasks :: addr

subsection \<open>\<^verbatim>\<open>JSON.stringify\<close> of a task list\<close>

definition hexDigit :: "nat \<Rightarrow> 16 word" where
  "hexDigit n = (if n < 10 then 0x30 + of_nat n else 0x61 + of_nat (n - 10))"

definition unicodeEscape :: "16 word \<Rightarrow> jsstring" where
  "unicodeEscape c =
     [0x5C, 0x75, hexDigit (unat c div 4096), hexDigit (unat c div 256 mod 16),
      hexDigit (unat c div 16 mod 16), hexDigit (unat c mod 16)]"

definition isLeadingSurrogate :: "16 word \<Rightarrow> bool" where
  "isLeadingSurrogate c \<longleftrightarrow> 0xD800 \<le> c \<and> c \<le> 0xDBFF"

definition isTrailingSurrogate :: "16 word \<Rightarrow> bool" where
  "isTrailingSurrogate c \<longleftrightarrow> 0xDC00 \<le> c \<and> c \<le> 0xDFFF"

definition quoteCodeUnit :: "16 word \<Rightarrow> jsstring" where
  "quoteCodeUnit c =
     (if c = 0x08 then [0x5C, 0x62]
      else if c = 0x09 then [0x5C, 0x74]
      else if c = 0x0A then [0x5C, 0x6E]
      else if c = 0x0C then [0x5C, 0x66]
      else if c = 0x0D then [0x5C, 0x72]
      else if c = 0x22 then [0x5C, 0x22]
      else if c = 0x5C then [0x5C, 0x5C]
      else if c < 0x20 \<or> isLeadingSurrogate c \<or> isTrailingSurrogate c then unicodeEscape c
      else [c])"

fun quoteCodeUnits :: "jsstring \<Rightarrow> jsstring" where
  "quoteCodeUnits [] = []"
| "quoteCodeUnits [c] = quoteCodeUnit c"
| "quoteCodeUnits (c # d # cs) =
     (if isLeadingSurrogate c \<and> isTrailingSurrogate d then c # d # quoteCodeUnits cs
      else quoteCodeUnit c @ quoteCodeUnits (d # cs))"

definition quoteJSONString :: "jsstring \<Rightarrow> jsstring" where
  "quoteJSONString s = [0x22] @ quoteCodeUnits s @ [0x22]"

definition serializeTask :: "task \<Rightarrow> jsstring" where
  "serializeTask t =
     [0x7B] @ quoteJSONString (js ''id'') @ [0x3A] @ quoteJSONString (task_id t) @
     [0x2C] @ quoteJSONString (js ''title'') @ [0x3A] @ quoteJSONString (task_title t) @
     [0x2C] @ quoteJSONString (js ''done'') @ [0x3A] @
     (if task_done t then js ''true'' else js ''false'') @ [0x7D]"

fun joinComma :: "jsstring list \<Rightarrow> jsstring" where
  "joinComma [] = []"
| "joinComma [x] = x"
| "joinComma (x # y # ys) = x @ [0x2C] @ joinComma (y # ys)"

definition JSON_stringify :: "task list \<Rightarrow> jsstring" where
  "JSON_stringify ts = [0x5B] @ joinComma (map serializeTask ts) @ [0x5D]"

subsection \<open>The store\<close>

text \<open>
  \<^verbatim>\<open>createStore\<close> runs \<^verbatim>\<open>let tasks = []\<close>, declares \<^verbatim>\<open>init\<close> and
  \<^verbatim>\<open>persist\<close>, and returns the object of the four methods. It calls nothing and
  reads nothing from the backend: no statement of the file calls the inner
  \<^verbatim>\<open>init\<close>, the only place with \<^verbatim>\<open>getItem\<close>, \<^verbatim>\<open>JSON.parse\<close> and the line
  \<^verbatim>\<open>console.error('Failed to load from localStorage:', e)\<close> (the \<^verbatim>\<open>init\<close> at the
  end of the file is another function, the one of the page).
\<close>

definition createStore :: "jsstring \<Rightarrow> world \<Rightarrow> store \<times> world" where
  "createStore key w =
     (case alloc_array [] (heap w) of (r, h) \<Rightarrow>
        (\<lparr>storageKey = key, tasks = r\<rparr>, w\<lparr>heap := h\<rparr>))"

definition persist :: "store \<Rightarrow> world \<Rightarrow> world" where
  "persist s w =
     (case setItem (localStorage w) (storageKey s) (JSON_stringify (view (heap w) (tasks s))) of
        Inl e \<Rightarrow> w\<lparr>console := console w @ [(js ''Failed to save to localStorage:'', e)]\<rparr>
      | Inr b \<Rightarrow> w\<lparr>localStorage := b\<rparr>)"

text \<open>\<^verbatim>\<open>tasks.map(task => ({ ...task }))\<close>: a new object for each element, a new array.\<close>

definition list :: "store \<Rightarrow> world \<Rightarrow> addr \<times> store \<times> world" where
  "list s w =
     (case array_map (\<lambda>a h. alloc_object (objects h ! a) h) (arrays (heap w) ! tasks s) (heap w) of
        (bs, h1) \<Rightarrow>
          (case alloc_array bs h1 of (r, h2) \<Rightarrow> (r, s, w\<lparr>heap := h2\<rparr>)))"

definition add :: "candidate \<Rightarrow> store \<Rightarrow> world \<Rightarrow> (js_error + addr) \<times> store \<times> world" where
  "add task s w =
     (case arg_title task of
        None \<Rightarrow> (Inl (Error (js ''Task title cannot be empty'')), s, w)
      | Some t \<Rightarrow>
          if t = [] \<or> length (trim t) = 0
          then (Inl (Error (js ''Task title cannot be empty'')), s, w)
          else
            (case alloc_object
                    \<lparr>task_id = arg_id task, task_title = trim t,
                     task_done = (case arg_done task of None \<Rightarrow> False | Some d \<Rightarrow> d)\<rparr>
                    (heap w) of
               (newTask, h1) \<Rightarrow>
                 (case alloc_array (arrays h1 ! tasks s @ [newTask]) h1 of
                    (r, h2) \<Rightarrow>
                      (case list (s\<lparr>tasks := r\<rparr>) (persist (s\<lparr>tasks := r\<rparr>) (w\<lparr>heap := h2\<rparr>)) of
                         (l, s', w') \<Rightarrow> (Inr l, s', w')))))"

definition toggle :: "jsstring \<Rightarrow> store \<Rightarrow> world \<Rightarrow> addr \<times> store \<times> world" where
  "toggle i s w =
     (case array_map
             (\<lambda>a h. if task_id (objects h ! a) = i
                    then alloc_object ((objects h ! a)\<lparr>task_done := \<not> task_done (objects h ! a)\<rparr>) h
                    else (a, h))
             (arrays (heap w) ! tasks s) (heap w) of
        (bs, h1) \<Rightarrow>
          (case alloc_array bs h1 of
             (r, h2) \<Rightarrow> list (s\<lparr>tasks := r\<rparr>) (persist (s\<lparr>tasks := r\<rparr>) (w\<lparr>heap := h2\<rparr>))))"

definition remove :: "jsstring \<Rightarrow> store \<Rightarrow> world \<Rightarrow> addr \<times> store \<times> world" where
  "remove i s w =
     (case alloc_array
             (filter (\<lambda>a. task_id (objects (heap w) ! a) \<noteq> i) (arrays (heap w) ! tasks s))
             (heap w) of
        (r, h1) \<Rightarrow> list (s\<lparr>tasks := r\<rparr>) (persist (s\<lparr>tasks := r\<rparr>) (w\<lparr>heap := h1\<rparr>)))"

text \<open>What the callback of \<^verbatim>\<open>toggle\<close> does to the value of one task.\<close>

definition flip :: "jsstring \<Rightarrow> task \<Rightarrow> task" where
  "flip i t = (if task_id t = i then t\<lparr>task_done := \<not> task_done t\<rparr> else t)"

text \<open>
  Every reference the store holds points into the heap. \<^verbatim>\<open>createStore\<close> makes
  such a state and every call keeps it (lemma \<open>well_formed_reachable\<close>).
\<close>

definition well_formed :: "store \<Rightarrow> world \<Rightarrow> bool" where
  "well_formed s w \<longleftrightarrow>
     tasks s < length (arrays (heap w)) \<and>
     list_all (\<lambda>a. a < length (objects (heap w))) (arrays (heap w) ! tasks s)"

text \<open>The task list the store holds.\<close>

definition contents :: "store \<Rightarrow> world \<Rightarrow> task list" where
  "contents s w = view (heap w) (tasks s)"

text \<open>The task list a call returned: the value of the array it gave back.\<close>

definition returned :: "addr \<times> store \<times> world \<Rightarrow> task list" where
  "returned res = view (heap (snd (snd res))) (fst res)"

subsection \<open>Numbers: binary64 arithmetic and \<^verbatim>\<open>toFixed\<close>\<close>

text \<open>
  A JavaScript number is an IEEE 754 binary64 value, and \<^verbatim>\<open>/\<close> and \<^verbatim>\<open>*\<close> return
  the exact result rounded to the nearest such value, ties to the even significand. The
  finite values are rationals, and \<open>fl\<close> is that rounding on the rationals: with
  \<open>2\<^sup>e \<le> |y| < 2\<^sup>e\<^sup>+\<^sup>1\<close>, the nearest multiple of \<open>2\<^sup>e\<^sup>-\<^sup>5\<^sup>2\<close>. The exponent is
  not bounded here: \<^verbatim>\<open>summarize\<close> only meets 0 and values between \<open>2\<^sup>-\<^sup>3\<^sup>2\<close> and 100,
  far from overflow and from the subnormal numbers.
\<close>

function floor_log2 :: "int \<Rightarrow> int" where
  "floor_log2 n = (if n < 2 then 0 else floor_log2 (n div 2) + 1)"
  by auto
termination
  by (relation "measure nat") auto

declare floor_log2.simps [simp del]

text \<open>The \<open>e\<close> with \<open>2\<^sup>e \<le> y < 2\<^sup>e\<^sup>+\<^sup>1\<close>, for \<open>y > 0\<close> (lemma \<open>exponent_bounds\<close>).\<close>

definition exponent :: "rat \<Rightarrow> int" where
  "exponent y = (if 1 \<le> y then floor_log2 \<lfloor>y\<rfloor> else - (floor_log2 (\<lceil>1 / y\<rceil> - 1) + 1))"

definition round_half_even :: "rat \<Rightarrow> int" where
  "round_half_even r =
     (if r - of_int \<lfloor>r\<rfloor> < 1 / 2 then \<lfloor>r\<rfloor>
      else if 1 / 2 < r - of_int \<lfloor>r\<rfloor> then \<lfloor>r\<rfloor> + 1
      else if even \<lfloor>r\<rfloor> then \<lfloor>r\<rfloor> else \<lfloor>r\<rfloor> + 1)"

definition fl :: "rat \<Rightarrow> rat" where
  "fl y =
     (if y = 0 then 0
      else of_int (round_half_even (y / 2 powi (exponent \<bar>y\<bar> - 52))) * 2 powi (exponent \<bar>y\<bar> - 52))"

text \<open>
  \<^verbatim>\<open>x.toFixed(1)\<close> for \<open>|x| < 10\<^sup>2\<^sup>1\<close>: the integer \<open>n\<close> with \<open>n / 10\<close> nearest to
  the exact value of \<open>x\<close>, the larger one of two, written in decimal with a point before
  the last digit.
\<close>

definition digit :: "nat \<Rightarrow> 16 word" where
  "digit n = 0x30 + of_nat n"

fun decimal :: "nat \<Rightarrow> jsstring" where
  "decimal n = (if n < 10 then [digit n] else decimal (n div 10) @ [digit (n mod 10)])"

declare decimal.simps [simp del]

definition fixed1 :: "nat \<Rightarrow> jsstring" where
  "fixed1 n = decimal (n div 10) @ [0x2E, digit (n mod 10)]"

definition toFixed1 :: "rat \<Rightarrow> jsstring" where
  "toFixed1 x =
     (if x < 0 then [0x2D] @ fixed1 (nat \<lfloor>- x * 10 + 1 / 2\<rfloor>)
      else fixed1 (nat \<lfloor>x * 10 + 1 / 2\<rfloor>))"

subsection \<open>\<^verbatim>\<open>summarize\<close>\<close>

text \<open>
  \<open>pct\<close> is the number 0 for the empty list and the string of \<^verbatim>\<open>toFixed\<close> otherwise.
  The counters are numbers too; an array has fewer than \<open>2\<^sup>3\<^sup>2\<close> elements, and up to
  \<open>2\<^sup>5\<^sup>3\<close> the additions \<^verbatim>\<open>count + 1\<close> are exact, so they are natural numbers here.
\<close>

datatype jsvalue = JNumber rat | JString jsstring

record summary =
  sum_active :: nat
  sum_done :: nat
  sum_pct :: jsvalue

definition summarize :: "task list \<Rightarrow> summary" where
  "summarize ts =
     (let active = foldl (\<lambda>count task. if task_done task then count else count + 1) 0 ts;
          done = foldl (\<lambda>count task. if task_done task then count + 1 else count) 0 ts;
          total = active + done;
          pct = (if total = 0 then JNumber 0
                 else JString (toFixed1 (fl (fl (of_nat done / of_nat total) * 100))))
      in \<lparr>sum_active = active, sum_done = done, sum_pct = pct\<rparr>)"

subsection \<open>Calls from outside\<close>

text \<open>
  The handlers of the page call \<^verbatim>\<open>add\<close>, \<^verbatim>\<open>toggle\<close> and \<^verbatim>\<open>remove\<close> one
  after the other and catch what \<^verbatim>\<open>add\<close> throws; \<open>run\<close> is a sequence of such
  calls.
\<close>

datatype call = Add candidate | Toggle jsstring | Remove jsstring

fun step :: "call \<Rightarrow> store \<times> world \<Rightarrow> store \<times> world" where
  "step (Add task) (s, w) = snd (add task s w)"
| "step (Toggle i) (s, w) = snd (toggle i s w)"
| "step (Remove i) (s, w) = snd (remove i s w)"

definition run :: "call list \<Rightarrow> store \<times> world \<Rightarrow> store \<times> world" where
  "run cs st = foldl (\<lambda>st c. step c st) st cs"

definition state_contents :: "store \<times> world \<Rightarrow> task list" where
  "state_contents st = contents (fst st) (snd st)"

text \<open>
  The calls of a sequence in which every \<^verbatim>\<open>add\<close> comes with an id that no task of
  the list has when the call is made.
\<close>

fun fresh_ids :: "call list \<Rightarrow> store \<times> world \<Rightarrow> bool" where
  "fresh_ids [] st = True"
| "fresh_ids (c # cs) st =
     ((case c of
         Add task \<Rightarrow> arg_id task \<notin> task_id ` set (state_contents st)
       | _ \<Rightarrow> True) \<and>
      fresh_ids cs (step c st))"

text \<open>A page that has just been opened: nothing allocated, nothing stored, nothing logged.\<close>

definition world0 :: world where
  "world0 =
     \<lparr>heap = \<lparr>objects = [], arrays = []\<rparr>,
      localStorage = \<lparr>items = (\<lambda>k. None), refuses = False\<rparr>,
      console = []\<rparr>"

text \<open>
  What code outside the store can do to a heap with the references \<open>rs\<close> (arrays) and
  \<open>bs\<close> (objects) in hand: change those cells and allocate; every other cell stays.
\<close>

definition mutates_only :: "addr list \<Rightarrow> addr list \<Rightarrow> heap \<Rightarrow> heap \<Rightarrow> bool" where
  "mutates_only rs bs h h' \<longleftrightarrow>
     length (arrays h) \<le> length (arrays h') \<and>
     length (objects h) \<le> length (objects h') \<and>
     list_all (\<lambda>r. r \<in> set rs \<or> arrays h' ! r = arrays h ! r) [0 ..< length (arrays h)] \<and>
     list_all (\<lambda>a. a \<in> set bs \<or> objects h' ! a = objects h ! a) [0 ..< length (objects h)]"

subsection \<open>States to evaluate\<close>

text \<open>\<^verbatim>\<open>const store = createStore('focustasks_9889')\<close> on a page just opened.\<close>

definition store0 :: "store \<times> world" where
  "store0 = createStore (js ''focustasks_9889'') world0"

text \<open>Two tasks with different ids, and two tasks with the same id.\<close>

definition two_tasks :: "store \<times> world" where
  "two_tasks =
     run [Add \<lparr>arg_id = js ''t1'', arg_title = Some (js ''Buy milk''), arg_done = None\<rparr>,
          Add \<lparr>arg_id = js ''t2'', arg_title = Some (js ''Call home''), arg_done = Some True\<rparr>] store0"

definition twins :: "store \<times> world" where
  "twins =
     run [Add \<lparr>arg_id = js ''a'', arg_title = Some (js ''x''), arg_done = None\<rparr>,
          Add \<lparr>arg_id = js ''a'', arg_title = Some (js ''y''), arg_done = Some True\<rparr>] store0"

text \<open>One task saved, and a second store made on the same key afterwards.\<close>

definition one_task :: "store \<times> world" where
  "one_task =
     run [Add \<lparr>arg_id = js ''t1'', arg_title = Some (js ''Buy milk''), arg_done = None\<rparr>] store0"

definition reloaded :: "store \<times> world" where
  "reloaded = createStore (js ''focustasks_9889'') (snd one_task)"

text \<open>
  A page whose backend holds, under the key, a text that is no JSON, and the store made
  on it.
\<close>

definition corrupt :: world where
  "corrupt = world0\<lparr>localStorage :=
     \<lparr>items = (\<lambda>k. if k = js ''focustasks_9889'' then Some (js ''{oops'') else None),
      refuses = False\<rparr>\<rparr>"

definition on_corrupt :: "store \<times> world" where
  "on_corrupt = createStore (js ''focustasks_9889'') corrupt"

text \<open>
  A caller of \<^verbatim>\<open>list()\<close> that writes into what it got:
  \<^verbatim>\<open>l[0].title = 'changed'; l[0].done = true; l.length = 0\<close>.
\<close>

definition listed :: "addr \<times> store \<times> world" where
  "listed = list (fst two_tasks) (snd two_tasks)"

definition tampered :: heap where
  "tampered =
     (heap (snd (snd listed)))
       \<lparr>objects := (objects (heap (snd (snd listed))))
          [hd (arrays (heap (snd (snd listed))) ! fst listed) :=
             \<lparr>task_id = js ''t1'', task_title = js ''changed'', task_done = True\<rparr>],
        arrays := (arrays (heap (snd (snd listed))))[fst listed := []]\<rparr>"

text \<open>Three tasks, two of them done; 23 done of 80, and 1 done of 16.\<close>

definition two_of_three :: "task list" where
  "two_of_three =
     [\<lparr>task_id = js ''a'', task_title = js ''x'', task_done = True\<rparr>,
      \<lparr>task_id = js ''b'', task_title = js ''y'', task_done = False\<rparr>,
      \<lparr>task_id = js ''c'', task_title = js ''z'', task_done = True\<rparr>]"

definition done_of :: "nat \<Rightarrow> nat \<Rightarrow> task list" where
  "done_of d t =
     replicate d \<lparr>task_id = js ''a'', task_title = js ''x'', task_done = True\<rparr> @
     replicate (t - d) \<lparr>task_id = js ''b'', task_title = js ''y'', task_done = False\<rparr>"


section \<open>The effect of each operation on the task list\<close>

lemma upt_shift: "[n ..< n + Suc k] = n # [Suc n ..< Suc n + k]"
  using upt_conv_Cons [of n "n + Suc k"] by simp

lemma array_map_clone:
  "array_map (\<lambda>a h. alloc_object (objects h ! a) h) as h = (bs, h') \<Longrightarrow>
   list_all (\<lambda>a. a < length (objects h)) as \<Longrightarrow>
   arrays h' = arrays h \<and> objects h' = objects h @ map (\<lambda>a. objects h ! a) as \<and>
   bs = [length (objects h) ..< length (objects h) + length as]"
proof (induction as arbitrary: h bs h')
  case Nil
  then show ?case by simp
next
  case (Cons a as)
  obtain b h1 where f: "alloc_object (objects h ! a) h = (b, h1)" by fastforce
  obtain cs h2 where r: "array_map (\<lambda>a h. alloc_object (objects h ! a) h) as h1 = (cs, h2)" by fastforce
  from f have h1: "h1 = h\<lparr>objects := objects h @ [objects h ! a]\<rparr>" and b: "b = length (objects h)"
    by (simp_all add: alloc_object_def)
  from Cons.prems(2) have all1: "list_all (\<lambda>a. a < length (objects h1)) as"
    by (auto simp: h1 list_all_iff)
  note ih = Cons.IH [OF r all1]
  from Cons.prems(1) f r have res: "bs = b # cs" "h' = h2" by simp_all
  have same: "map (\<lambda>a. objects h1 ! a) as = map (\<lambda>a. objects h ! a) as"
    using Cons.prems(2) by (auto simp: h1 list_all_iff nth_append)
  have up: "[length (objects h) ..< length (objects h) + length (a # as)] =
      length (objects h) # [length (objects h1) ..< length (objects h1) + length as]"
    using upt_shift [of "length (objects h)" "length as"] by (simp add: h1)
  show ?case unfolding up using ih res b same
    by (simp add: h1)
qed

lemma view_fresh_range:
  "map (\<lambda>a. (xs @ ys) ! a) [length xs ..< length xs + length ys] = ys"
  by (rule nth_equalityI) (simp_all add: nth_append)

lemma list_eq:
  assumes "well_formed s w"
  shows "list s w =
    (length (arrays (heap w)), s,
     w\<lparr>heap := \<lparr>objects = objects (heap w) @ contents s w,
                arrays = arrays (heap w) @
                  [[length (objects (heap w)) ..< length (objects (heap w)) + length (contents s w)]]\<rparr>\<rparr>)"
proof -
  obtain bs h1 where m: "array_map (\<lambda>a h. alloc_object (objects h ! a) h) (arrays (heap w) ! tasks s) (heap w) = (bs, h1)"
    by fastforce
  from assms have "list_all (\<lambda>a. a < length (objects (heap w))) (arrays (heap w) ! tasks s)"
    by (simp add: well_formed_def)
  from array_map_clone [OF m this]
  have "arrays h1 = arrays (heap w)" "objects h1 = objects (heap w) @ contents s w"
    "bs = [length (objects (heap w)) ..< length (objects (heap w)) + length (contents s w)]"
    by (simp_all add: contents_def view_def)
  then show ?thesis
    by (simp add: list_def m alloc_array_def)
qed

lemma heap_persist: "heap (persist s w) = heap w"
  by (simp add: persist_def split: sum.splits)

lemma contents_persist: "contents s (persist s' w) = contents s w"
  by (simp add: contents_def heap_persist)

lemma well_formed_persist: "well_formed s (persist s' w) = well_formed s w"
  by (simp add: well_formed_def heap_persist)

lemma list_effect:
  assumes "well_formed s w" and "list s w = (r, s', w')"
  shows "s' = s" "contents s w' = contents s w" "view (heap w') r = contents s w"
    "well_formed s w'" "localStorage w' = localStorage w" "console w' = console w"
proof -
  note e = assms(2) [unfolded list_eq [OF assms(1)]]
  from assms(1) have b: "tasks s < length (arrays (heap w))"
    and o: "list_all (\<lambda>a. a < length (objects (heap w))) (arrays (heap w) ! tasks s)"
    by (simp_all add: well_formed_def)
  from e show "s' = s" by simp
  from e show "localStorage w' = localStorage w" by auto
  from e show "console w' = console w" by auto
  from e b o show "contents s w' = contents s w"
    by (auto simp: contents_def view_def nth_append list_all_iff)
  from e show "view (heap w') r = contents s w"
    by (auto simp: view_def view_fresh_range)
  have "list_all (\<lambda>a. a < length (objects (heap w)) + length (contents s w)) (arrays (heap w) ! tasks s)"
    using o by (simp add: list_all_iff trans_less_add1)
  with e b show "well_formed s w'"
    by (auto simp: well_formed_def nth_append)
qed

lemma install:
  assumes "alloc_array as h1 = (r, h2)" and "list_all (\<lambda>a. a < length (objects h1)) as"
  shows "well_formed (s\<lparr>tasks := r\<rparr>) (w\<lparr>heap := h2\<rparr>)"
    and "contents (s\<lparr>tasks := r\<rparr>) (w\<lparr>heap := h2\<rparr>) = map (\<lambda>a. objects h1 ! a) as"
  using assms by (auto simp: alloc_array_def well_formed_def contents_def view_def)

lemma finish:
  assumes "well_formed s1 w1" and "list s1 (persist s1 w1) = (l, s', w')"
  shows "s' = s1" "contents s' w' = contents s1 w1" "view (heap w') l = contents s1 w1"
    "well_formed s' w'"
proof -
  have wf: "well_formed s1 (persist s1 w1)"
    using assms(1) by (simp add: well_formed_persist)
  note le = list_effect [OF wf assms(2)]
  show "s' = s1" by (rule le(1))
  show "contents s' w' = contents s1 w1" using le(1,2) by (simp add: contents_persist)
  show "view (heap w') l = contents s1 w1" using le(3) by (simp add: contents_persist)
  show "well_formed s' w'" using le(1,4) by simp
qed

lemma add_effect:
  assumes wf: "well_formed s w" and t: "arg_title c = Some t" and v: "trim t \<noteq> []"
  shows "\<exists>l s' w'. add c s w = (Inr l, s', w') \<and>
           contents s' w' = contents s w @
             [\<lparr>task_id = arg_id c, task_title = trim t,
               task_done = (case arg_done c of None \<Rightarrow> False | Some d \<Rightarrow> d)\<rparr>] \<and>
           view (heap w') l = contents s' w' \<and> well_formed s' w'"
proof -
  define new where "new = \<lparr>task_id = arg_id c, task_title = trim t,
               task_done = (case arg_done c of None \<Rightarrow> False | Some d \<Rightarrow> d)\<rparr>"
  define h1 where "h1 = (heap w)\<lparr>objects := objects (heap w) @ [new]\<rparr>"
  define as where "as = arrays h1 ! tasks s @ [length (objects (heap w))]"
  obtain r h2 where al: "alloc_array as h1 = (r, h2)" by fastforce
  define s1 where "s1 = s\<lparr>tasks := r\<rparr>"
  define w1 where "w1 = w\<lparr>heap := h2\<rparr>"
  obtain l s' w' where li: "list s1 (persist s1 w1) = (l, s', w')"
    using prod_cases3 by blast
  from v have tne: "t \<noteq> []" by (auto simp: trim_def)
  have ad: "add c s w = (Inr l, s', w')"
    using t v tne al li
    by (simp add: add_def alloc_object_def new_def h1_def as_def s1_def w1_def)
  from wf have all: "list_all (\<lambda>a. a < length (objects h1)) as"
    by (auto simp: well_formed_def h1_def as_def list_all_iff intro: less_SucI)
  note ins = install [OF al all, of s w, folded s1_def w1_def]
  have "map (\<lambda>a. objects h1 ! a) as = contents s w @ [new]"
    using wf by (auto simp: well_formed_def h1_def as_def contents_def view_def nth_append list_all_iff)
  with ins(2) have c1: "contents s1 w1 = contents s w @ [new]" by simp
  note fin = finish [OF ins(1) li]
  show ?thesis using ad fin c1 by (simp add: new_def)
qed

lemma add_invalid:
  assumes "arg_title c = None \<or> (\<exists>t. arg_title c = Some t \<and> trim t = [])"
  shows "add c s w = (Inl (Error (js ''Task title cannot be empty'')), s, w)"
  using assms by (auto simp: add_def)

lemma array_map_toggle:
  "array_map (\<lambda>a h. if task_id (objects h ! a) = i
                    then alloc_object ((objects h ! a)\<lparr>task_done := \<not> task_done (objects h ! a)\<rparr>) h
                    else (a, h)) as h = (bs, h') \<Longrightarrow>
   list_all (\<lambda>a. a < length (objects h)) as \<Longrightarrow>
   arrays h' = arrays h \<and> (\<exists>ext. objects h' = objects h @ ext) \<and>
   list_all (\<lambda>b. b < length (objects h')) bs \<and>
   map (\<lambda>b. objects h' ! b) bs = map (\<lambda>a. flip i (objects h ! a)) as"
proof (induction as arbitrary: h bs h')
  case Nil
  then show ?case by simp
next
  case (Cons a as)
  let ?f = "\<lambda>a h. if task_id (objects h ! a) = i
                    then alloc_object ((objects h ! a)\<lparr>task_done := \<not> task_done (objects h ! a)\<rparr>) h
                    else (a, h)"
  obtain b h1 where f: "?f a h = (b, h1)" by fastforce
  obtain cs h2 where r: "array_map ?f as h1 = (cs, h2)" by fastforce
  from Cons.prems(2) have a: "a < length (objects h)" and as: "list_all (\<lambda>a. a < length (objects h)) as"
    by simp_all
  from f a have h1: "arrays h1 = arrays h" "\<exists>e1. objects h1 = objects h @ e1"
    "b < length (objects h1)" "objects h1 ! b = flip i (objects h ! a)"
    by (auto simp: alloc_object_def flip_def split: if_splits)
  then obtain e1 where e1: "objects h1 = objects h @ e1" by blast
  from as have all1: "list_all (\<lambda>a. a < length (objects h1)) as"
    by (simp add: e1 list_all_iff trans_less_add1)
  note ih = Cons.IH [OF r all1]
  then obtain e2 where e2: "objects h2 = objects h1 @ e2" by blast
  from Cons.prems(1) f r have res: "bs = b # cs" "h' = h2" by simp_all
  have same: "map (\<lambda>a. flip i (objects h1 ! a)) as = map (\<lambda>a. flip i (objects h ! a)) as"
    using as by (auto simp: e1 list_all_iff nth_append)
  have bb: "b < length (objects h2)" "objects h2 ! b = flip i (objects h ! a)"
    using h1(3,4) by (simp_all add: e2 nth_append)
  show ?case using ih res same bb h1(1) e1 e2 by simp
qed

lemma toggle_effect:
  assumes wf: "well_formed s w" and tg: "toggle i s w = (l, s', w')"
  shows "contents s' w' = map (flip i) (contents s w)"
    "view (heap w') l = contents s' w'" "well_formed s' w'"
proof -
  let ?f = "\<lambda>a h. if task_id (objects h ! a) = i
                    then alloc_object ((objects h ! a)\<lparr>task_done := \<not> task_done (objects h ! a)\<rparr>) h
                    else (a, h)"
  obtain bs h1 where m: "array_map ?f (arrays (heap w) ! tasks s) (heap w) = (bs, h1)" by fastforce
  obtain r h2 where al: "alloc_array bs h1 = (r, h2)" by fastforce
  from wf have all: "list_all (\<lambda>a. a < length (objects (heap w))) (arrays (heap w) ! tasks s)"
    by (simp add: well_formed_def)
  note am = array_map_toggle [OF m all]
  from am have bsall: "list_all (\<lambda>b. b < length (objects h1)) bs" by simp
  note ins = install [OF al bsall, of s w]
  from tg m al have li: "list (s\<lparr>tasks := r\<rparr>) (persist (s\<lparr>tasks := r\<rparr>) (w\<lparr>heap := h2\<rparr>)) = (l, s', w')"
    by (simp add: toggle_def)
  note fin = finish [OF ins(1) li]
  have "map (\<lambda>b. objects h1 ! b) bs = map (flip i) (contents s w)"
    using am by (simp add: contents_def view_def)
  with ins(2) fin show "contents s' w' = map (flip i) (contents s w)" by simp
  from fin show "view (heap w') l = contents s' w'" by simp
  from fin show "well_formed s' w'" by simp
qed

lemma remove_effect:
  assumes wf: "well_formed s w" and rm: "remove i s w = (l, s', w')"
  shows "contents s' w' = filter (\<lambda>t. task_id t \<noteq> i) (contents s w)"
    "view (heap w') l = contents s' w'" "well_formed s' w'"
proof -
  let ?as = "filter (\<lambda>a. task_id (objects (heap w) ! a) \<noteq> i) (arrays (heap w) ! tasks s)"
  obtain r h1 where al: "alloc_array ?as (heap w) = (r, h1)" by fastforce
  from wf have all: "list_all (\<lambda>a. a < length (objects (heap w))) ?as"
    by (simp add: well_formed_def list_all_iff)
  note ins = install [OF al all, of s w]
  from rm al have li: "list (s\<lparr>tasks := r\<rparr>) (persist (s\<lparr>tasks := r\<rparr>) (w\<lparr>heap := h1\<rparr>)) = (l, s', w')"
    by (simp add: remove_def)
  note fin = finish [OF ins(1) li]
  have "map (\<lambda>a. objects (heap w) ! a) ?as = filter (\<lambda>t. task_id t \<noteq> i) (contents s w)"
    by (simp add: contents_def view_def filter_map comp_def)
  with ins(2) fin show "contents s' w' = filter (\<lambda>t. task_id t \<noteq> i) (contents s w)" by simp
  from fin show "view (heap w') l = contents s' w'" by simp
  from fin show "well_formed s' w'" by simp
qed

lemma createStore_effect:
  assumes "createStore key w = (s, w1)"
  shows "well_formed s w1" "contents s w1 = []" "storageKey s = key"
    "console w1 = console w" "localStorage w1 = localStorage w"
  using assms by (auto simp: createStore_def alloc_array_def well_formed_def contents_def view_def)

lemma flip_flip: "flip i (flip i t) = t"
  by (simp add: flip_def)

subsection \<open>Every state the calls reach is well formed\<close>

lemma well_formed_step:
  assumes "well_formed s w" and "step c (s, w) = (s', w')"
  shows "well_formed s' w'"
proof (cases c)
  case (Add task)
  show ?thesis
  proof (cases "arg_title task = None \<or> (\<exists>t. arg_title task = Some t \<and> trim t = [])")
    case True
    from add_invalid [OF this, of s w] assms Add show ?thesis by simp
  next
    case False
    then obtain t where t: "arg_title task = Some t" "trim t \<noteq> []" by auto
    from add_effect [OF assms(1) t] assms(2) Add show ?thesis by auto
  qed
next
  case (Toggle i)
  obtain l where "toggle i s w = (l, s', w')"
    using assms(2) Toggle by (cases "toggle i s w") simp
  from toggle_effect(3) [OF assms(1) this] show ?thesis .
next
  case (Remove i)
  obtain l where "remove i s w = (l, s', w')"
    using assms(2) Remove by (cases "remove i s w") simp
  from remove_effect(3) [OF assms(1) this] show ?thesis .
qed

lemma well_formed_run:
  "well_formed (fst st) (snd st) \<Longrightarrow> well_formed (fst (run cs st)) (snd (run cs st))"
proof (induction cs arbitrary: st)
  case Nil
  then show ?case by (simp add: run_def)
next
  case (Cons c cs)
  have "well_formed (fst (step c st)) (snd (step c st))"
    using well_formed_step [of "fst st" "snd st" c "fst (step c st)" "snd (step c st)"] Cons.prems
    by simp
  from Cons.IH [OF this] show ?case by (simp add: run_def)
qed

lemma well_formed_reachable:
  "well_formed (fst (run cs (createStore key w))) (snd (run cs (createStore key w)))"
  by (rule well_formed_run) (simp add: createStore_effect(1) [of key w])

subsection \<open>One call and the ids\<close>

lemma step_keeps_unique_ids:
  assumes "well_formed s w" and "distinct (map task_id (contents s w))"
    and "case c of Add task \<Rightarrow> arg_id task \<notin> task_id ` set (contents s w) | _ \<Rightarrow> True"
    and "step c (s, w) = (s', w')"
  shows "distinct (map task_id (contents s' w')) \<and> well_formed s' w'"
proof (cases c)
  case (Add task)
  show ?thesis
  proof (cases "arg_title task = None \<or> (\<exists>t. arg_title task = Some t \<and> trim t = [])")
    case True
    from add_invalid [OF this, of s w] assms Add show ?thesis by simp
  next
    case False
    then obtain t where t: "arg_title task = Some t" "trim t \<noteq> []" by auto
    from add_effect [OF assms(1) t] assms(2,3,4) Add show ?thesis by auto
  qed
next
  case (Toggle i)
  obtain l where "toggle i s w = (l, s', w')"
    using assms(4) Toggle by (cases "toggle i s w") simp
  from toggle_effect [OF assms(1) this] assms(2)
  have "map task_id (contents s' w') = map task_id (contents s w)" "well_formed s' w'"
    by (simp_all add: comp_def flip_def)
  with assms(2) show ?thesis by simp
next
  case (Remove i)
  obtain l where "remove i s w = (l, s', w')"
    using assms(4) Remove by (cases "remove i s w") simp
  from remove_effect [OF assms(1) this] assms(2) show ?thesis
    by (simp add: distinct_map_filter)
qed

subsection \<open>Writes outside the store\<close>

lemma mutation_outside:
  assumes wf: "well_formed s w"
    and m: "mutates_only rs bs (heap w) h"
    and r: "tasks s \<notin> set rs"
    and b: "set bs \<inter> set (arrays (heap w) ! tasks s) = {}"
  shows "well_formed s (w\<lparr>heap := h\<rparr>)" "contents s (w\<lparr>heap := h\<rparr>) = contents s w"
proof -
  from wf have t: "tasks s < length (arrays (heap w))"
    and el: "\<forall>a \<in> set (arrays (heap w) ! tasks s). a < length (objects (heap w))"
    by (simp_all add: well_formed_def list_all_iff)
  from m have la: "length (arrays (heap w)) \<le> length (arrays h)"
    and lo: "length (objects (heap w)) \<le> length (objects h)"
    and ar: "\<forall>r < length (arrays (heap w)). r \<in> set rs \<or> arrays h ! r = arrays (heap w) ! r"
    and ob: "\<forall>a < length (objects (heap w)). a \<in> set bs \<or> objects h ! a = objects (heap w) ! a"
    by (simp_all add: mutates_only_def list_all_iff)
  from ar t r have same: "arrays h ! tasks s = arrays (heap w) ! tasks s" by blast
  have objs: "objects h ! a = objects (heap w) ! a" if "a \<in> set (arrays (heap w) ! tasks s)" for a
    using that el ob b by blast
  show "well_formed s (w\<lparr>heap := h\<rparr>)"
    using t la lo el by (auto simp: well_formed_def same list_all_iff)
  show "contents s (w\<lparr>heap := h\<rparr>) = contents s w"
    using objs by (simp add: contents_def view_def same)
qed

subsection \<open>Evaluation of the states above\<close>

lemmas ev = run_def state_contents_def contents_def view_def createStore_def alloc_array_def
  alloc_object_def world0_def add_def toggle_def remove_def list_def persist_def setItem_def
  trim_def isWhiteSpace_def js_def well_formed_def store0_def two_tasks_def twins_def
  one_task_def reloaded_def returned_def listed_def tampered_def mutates_only_def

lemma well_formed_two_tasks: "well_formed (fst two_tasks) (snd two_tasks)"
  by (simp add: ev)

lemma contents_two_tasks:
  "state_contents two_tasks =
     [\<lparr>task_id = js ''t1'', task_title = js ''Buy milk'', task_done = False\<rparr>,
      \<lparr>task_id = js ''t2'', task_title = js ''Call home'', task_done = True\<rparr>]"
  by (simp add: ev)

lemma well_formed_twins: "well_formed (fst twins) (snd twins)"
  by (simp add: ev)

lemma contents_twins:
  "state_contents twins =
     [\<lparr>task_id = js ''a'', task_title = js ''x'', task_done = False\<rparr>,
      \<lparr>task_id = js ''a'', task_title = js ''y'', task_done = True\<rparr>]"
  by (simp add: ev)

lemma stored_text:
  "items (localStorage (snd one_task)) (js ''focustasks_9889'') =
     Some ([0x5B, 0x7B, 0x22] @ js ''id'' @ [0x22, 0x3A, 0x22] @ js ''t1'' @ [0x22, 0x2C, 0x22] @ js ''title'' @
       [0x22, 0x3A, 0x22] @ js ''Buy milk'' @ [0x22, 0x2C, 0x22] @ js ''done'' @ [0x22, 0x3A] @ js ''false'' @ [0x7D, 0x5D])"
  by (simp add: ev JSON_stringify_def serializeTask_def quoteJSONString_def quoteCodeUnit_def
    isLeadingSurrogate_def isTrailingSurrogate_def)

section \<open>The error of the percentage\<close>

lemma floor_log2_bounds:
  "1 \<le> n \<Longrightarrow> 0 \<le> floor_log2 n \<and> 2 ^ nat (floor_log2 n) \<le> n \<and> n < 2 ^ nat (floor_log2 n + 1)"
proof (induction n rule: floor_log2.induct)
  case (1 n)
  show ?case
  proof (cases "n < 2")
    case True
    with "1.prems" have "n = 1" by simp
    then show ?thesis by (simp add: floor_log2.simps)
  next
    case False
    then have h: "1 \<le> n div 2" by simp
    note ih = "1.IH" [OF False h]
    let ?k = "floor_log2 (n div 2)"
    from False have e: "floor_log2 n = ?k + 1" by (subst floor_log2.simps) simp
    from ih have k0: "0 \<le> ?k" by simp
    have n0: "nat (?k + 1) = Suc (nat ?k)" using k0 by simp
    have n1: "nat (floor_log2 n) = Suc (nat ?k)" using k0 e by simp
    have n2: "nat (floor_log2 n + 1) = Suc (Suc (nat ?k))" using k0 e by simp
    from ih have lo: "2 ^ nat ?k \<le> n div 2" and hi: "n div 2 < 2 ^ nat (?k + 1)" by simp_all
    have a: "2 ^ nat (floor_log2 n) \<le> n" unfolding n1 using lo by simp
    have b: "n < 2 ^ nat (floor_log2 n + 1)" unfolding n2 using hi unfolding n0 by simp
    from a b k0 e show ?thesis by simp
  qed
qed

lemma exponent_bounds:
  assumes "0 < y"
  shows "2 powi exponent y \<le> y" "y < 2 powi (exponent y + 1)"
proof -
  show "2 powi exponent y \<le> y"
  proof (cases "1 \<le> y")
    case True
    then have f: "1 \<le> \<lfloor>y\<rfloor>" by simp
    note b = floor_log2_bounds [OF f]
    have "(2::rat) powi floor_log2 \<lfloor>y\<rfloor> = 2 ^ nat (floor_log2 \<lfloor>y\<rfloor>)"
      using b by (simp add: power_int_def)
    also have "\<dots> = of_int (2 ^ nat (floor_log2 \<lfloor>y\<rfloor>))" by simp
    also have "\<dots> \<le> of_int \<lfloor>y\<rfloor>" using b by (simp only: of_int_le_iff)
    also have "\<dots> \<le> y" by simp
    finally show ?thesis using True by (simp add: exponent_def)
  next
    case False
    define m where "m = \<lceil>1 / y\<rceil> - 1"
    from False assms have z: "1 < 1 / y" by simp
    then have "2 \<le> \<lceil>1 / y\<rceil>" by (simp add: le_ceiling_iff)
    then have m1: "1 \<le> m" by (simp add: m_def)
    note b = floor_log2_bounds [OF m1]
    have "1 / y \<le> of_int \<lceil>1 / y\<rceil>" by simp
    also have "\<dots> = of_int (m + 1)" by (simp add: m_def)
    also have "\<dots> \<le> of_int (2 ^ nat (floor_log2 m + 1))"
      using b by (simp only: of_int_le_iff) simp
    finally have "1 / y \<le> 2 ^ nat (floor_log2 m + 1)" by simp
    then have "1 / 2 ^ nat (floor_log2 m + 1) \<le> y"
      using assms by (simp add: field_simps)
    moreover have "(2::rat) powi (- (floor_log2 m + 1)) = 1 / 2 ^ nat (floor_log2 m + 1)"
      using b by (simp add: power_int_def field_simps)
    ultimately show ?thesis using False by (simp add: exponent_def m_def)
  qed
  show "y < 2 powi (exponent y + 1)"
  proof (cases "1 \<le> y")
    case True
    then have f: "1 \<le> \<lfloor>y\<rfloor>" by simp
    note b = floor_log2_bounds [OF f]
    have "y < of_int (\<lfloor>y\<rfloor> + 1)" by linarith
    also have "\<dots> \<le> of_int (2 ^ nat (floor_log2 \<lfloor>y\<rfloor> + 1))"
      using b by (simp only: of_int_le_iff) simp
    also have "\<dots> = 2 powi (floor_log2 \<lfloor>y\<rfloor> + 1)"
      using b by (simp add: power_int_def)
    finally show ?thesis using True by (simp add: exponent_def)
  next
    case False
    define m where "m = \<lceil>1 / y\<rceil> - 1"
    from False assms have z: "1 < 1 / y" by simp
    then have "2 \<le> \<lceil>1 / y\<rceil>" by (simp add: le_ceiling_iff)
    then have m1: "1 \<le> m" by (simp add: m_def)
    note b = floor_log2_bounds [OF m1]
    have "of_int (2 ^ nat (floor_log2 m)) \<le> (of_int m :: rat)"
      using b by (simp only: of_int_le_iff)
    also have "of_int m < 1 / y" unfolding m_def by linarith
    finally have "2 ^ nat (floor_log2 m) < 1 / y" by simp
    then have "y < 1 / 2 ^ nat (floor_log2 m)"
      using assms by (simp add: field_simps)
    moreover have "(2::rat) powi (- floor_log2 m) = 1 / 2 ^ nat (floor_log2 m)"
      using b by (cases "floor_log2 m = 0") (simp_all add: power_int_def field_simps)
    ultimately show ?thesis using False by (simp add: exponent_def m_def)
  qed
qed

lemma round_half_even_near: "\<bar>of_int (round_half_even r) - r\<bar> \<le> 1 / 2"
proof -
  define f where "f = \<lfloor>r\<rfloor>"
  have "of_int f \<le> r" "r < of_int f + 1" unfolding f_def by linarith+
  then show ?thesis unfolding round_half_even_def f_def [symmetric]
    by (auto simp: abs_if)
qed

lemma fl_error:
  assumes "0 < y"
  shows "\<bar>fl y - y\<bar> \<le> y / 2 ^ 53"
proof -
  define u :: rat where "u = 2 powi (exponent y - 52)"
  define n where "n = round_half_even (y / u)"
  have u0: "0 < u" by (simp add: u_def)
  have "u = 2 powi exponent y / 2 powi 52" unfolding u_def by (rule power_int_diff) simp
  then have "u * 2 ^ 52 = 2 powi exponent y" by simp
  with exponent_bounds(1) [OF assms] have ub: "u * 2 ^ 52 \<le> y" by simp
  from assms have f: "fl y = of_int n * u" by (simp add: fl_def n_def u_def)
  have "\<bar>of_int n * u - y\<bar> = u * \<bar>of_int n - y / u\<bar>"
    using u0 by (simp add: abs_mult_pos' [symmetric] field_simps)
  also have "\<dots> \<le> u * (1 / 2)"
    using round_half_even_near [of "y / u"] u0 unfolding n_def by (intro mult_left_mono) simp_all
  also have "\<dots> \<le> y / 2 ^ 53" using ub by simp
  finally show ?thesis by (simp add: f)
qed

lemma fl_zero: "fl 0 = 0"
  by (simp add: fl_def)

lemma percent_error:
  assumes "0 \<le> x" and "x \<le> 1"
  shows "\<bar>fl (fl x * 100) - 100 * x\<bar> \<le> 300 / 2 ^ 53" and "0 \<le> fl (fl x * 100)"
proof -
  have "\<bar>fl (fl x * 100) - 100 * x\<bar> \<le> 300 / 2 ^ 53 \<and> 0 \<le> fl (fl x * 100)"
  proof (cases "x = 0")
    case True
    then show ?thesis by (simp add: fl_zero)
  next
    case False
    with assms have x0: "0 < x" by simp
    define q where "q = fl x"
    define p where "p = fl (q * 100)"
    from fl_error [OF x0] have qe: "\<bar>q - x\<bar> \<le> x / 2 ^ 53" by (simp add: q_def)
    have "x / 2 ^ 53 < x" using x0 by simp
    with qe have q0: "0 < q" by linarith
    from qe have qu: "q \<le> x + x / 2 ^ 53" by linarith
    from q0 have "0 < q * 100" by simp
    from fl_error [OF this] have pe: "\<bar>p - q * 100\<bar> \<le> q * 100 / 2 ^ 53" by (simp add: p_def)
    have "q * 100 / 2 ^ 53 < q * 100" using q0 by simp
    with pe have p0: "0 < p" by linarith
    have x53: "x / 2 ^ 53 \<le> 1 / 2 ^ 53" using assms by (simp add: divide_right_mono)
    have q2: "q \<le> 2" using qu assms x53 by simp
    have "q * 100 / 2 ^ 53 \<le> 200 / 2 ^ 53" using q2 by simp
    with pe have pe': "\<bar>p - q * 100\<bar> \<le> 200 / 2 ^ 53" by linarith
    from qe x53 have "\<bar>q - x\<bar> \<le> 1 / 2 ^ 53" by linarith
    then have "\<bar>q * 100 - 100 * x\<bar> \<le> 100 / 2 ^ 53" by (simp add: abs_if split: if_splits)
    with pe' have "\<bar>p - 100 * x\<bar> \<le> 300 / 2 ^ 53" by linarith
    with p0 show ?thesis by (simp add: p_def q_def)
  qed
  then show "\<bar>fl (fl x * 100) - 100 * x\<bar> \<le> 300 / 2 ^ 53" and "0 \<le> fl (fl x * 100)"
    by simp_all
qed

lemma nearest_tenth:
  fixes d t :: nat and p :: rat
  assumes t: "0 < t" "t < 2 ^ 32"
    and p: "\<bar>p - 100 * (of_nat d / of_nat t)\<bar> \<le> 300 / 2 ^ 53"
  shows "\<bar>of_int \<lfloor>p * 10 + 1 / 2\<rfloor> / 10 - 100 * (of_nat d / of_nat t)\<bar> \<le> (1 / 20 :: rat)"
proof -
  define n where "n = \<lfloor>p * 10 + 1 / 2\<rfloor>"
  define k where "k = 2 * n * int t - 2000 * int d"
  have t0: "(0::rat) < of_nat t" using t by simp
  have "of_int n \<le> p * 10 + 1 / 2" "p * 10 + 1 / 2 < of_int n + 1"
    unfolding n_def by linarith+
  then have np: "\<bar>of_int n - p * 10\<bar> \<le> 1 / 2" by (simp add: abs_if)
  from p have "\<bar>p * 10 - 1000 * (of_nat d / of_nat t)\<bar> \<le> 3000 / 2 ^ 53"
    by (simp add: abs_if split: if_splits)
  with np have del: "\<bar>of_int n - 1000 * (of_nat d / of_nat t)\<bar> \<le> (1 / 2 + 3000 / 2 ^ 53 :: rat)"
    by linarith
  have keq: "(of_int k :: rat) = 2 * of_nat t * (of_int n - 1000 * (of_nat d / of_nat t))"
    using t0 by (simp add: k_def field_simps)
  have "\<bar>of_int k :: rat\<bar> = 2 * of_nat t * \<bar>of_int n - 1000 * (of_nat d / of_nat t)\<bar>"
    unfolding keq using t0 by (simp add: abs_mult)
  also have "\<dots> \<le> 2 * of_nat t * (1 / 2 + 3000 / 2 ^ 53)"
    using del t0 by (intro mult_left_mono) simp_all
  also have "\<dots> = of_nat t + of_nat t * (6000 / 2 ^ 53)" by (simp add: field_simps)
  also have "\<dots> < of_nat t + 1"
  proof -
    have "(of_nat t :: rat) < 2 ^ 32" using t(2) by (metis of_nat_less_iff of_nat_numeral of_nat_power)
    then have "(of_nat t :: rat) * (6000 / 2 ^ 53) < 2 ^ 32 * (6000 / 2 ^ 53)"
      by (intro mult_strict_right_mono) simp_all
    also have "\<dots> < 1" by simp
    finally show ?thesis by simp
  qed
  finally have "\<bar>of_int k :: rat\<bar> < of_int (int t + 1)" by simp
  then have "\<bar>k\<bar> < int t + 1" by (metis of_int_abs of_int_less_iff)
  then have "\<bar>k\<bar> \<le> int t" by simp
  then have "\<bar>of_int k :: rat\<bar> \<le> of_nat t" by (metis of_int_abs of_int_le_iff of_int_of_nat_eq)
  then have "2 * of_nat t * \<bar>of_int n - 1000 * (of_nat d / of_nat t)\<bar> \<le> (of_nat t :: rat)"
    unfolding keq using t0 by (simp add: abs_mult)
  then have "\<bar>of_int n - 1000 * (of_nat d / of_nat t)\<bar> \<le> (1 / 2 :: rat)"
    using t0 by (simp add: field_simps)
  then have "\<bar>of_int n / 10 - 100 * (of_nat d / of_nat t)\<bar> \<le> (1 / 20 :: rat)"
    by (simp add: abs_if split: if_splits)
  then show ?thesis by (simp add: n_def)
qed

lemma count_active:
  "foldl (\<lambda>count task. if task_done task then count else count + 1) k ts =
     k + length (filter (\<lambda>t. \<not> task_done t) ts)"
  by (induction ts arbitrary: k) simp_all

lemma count_done:
  "foldl (\<lambda>count task. if task_done task then count + 1 else count) k ts =
     k + length (filter task_done ts)"
  by (induction ts arbitrary: k) simp_all

lemma nearest_is_rounding:
  fixes n :: int and x :: rat
  assumes "\<bar>of_int n - x\<bar> \<le> 1 / 2" and "frac x \<noteq> 1 / 2"
  shows "\<lfloor>x + 1 / 2\<rfloor> = n"
proof -
  have half: "frac y = 1 / 2" if "y = of_int k + 1 / 2" for y :: rat and k :: int
  proof -
    have "\<lfloor>y\<rfloor> = k" unfolding that by (rule floor_unique) simp_all
    then show ?thesis by (simp add: frac_def that)
  qed
  have a: "x \<noteq> of_int n + 1 / 2"
    using half [of x n] assms(2) by blast
  have b: "x \<noteq> of_int n - 1 / 2"
  proof
    assume "x = of_int n - 1 / 2"
    then have "x = of_int (n - 1) + 1 / 2" by simp
    from half [OF this] assms(2) show False by simp
  qed
  from assms(1) a b have "of_int n \<le> x + 1 / 2" "x + 1 / 2 < of_int n + 1"
    by (simp_all add: abs_if split: if_splits)
  then show ?thesis by (simp add: floor_unique)
qed


section \<open>The properties\<close>

subsection \<open>Persistence and hydration\<close>

text \<open>
  C1 asks that a second store made on the same key shows the task list the first one
  persisted. The text is written by \<^verbatim>\<open>persist\<close>, and the routine that would read
  it back is declared in the closure (\<^verbatim>\<open>init\<close>), but neither
  \<^verbatim>\<open>createStore\<close> nor \<^verbatim>\<open>list\<close> calls it. After one \<^verbatim>\<open>add\<close> the backend
  holds the serialized task, and the store made next on that key is empty.
\<close>

theorem reload_loses_tasks:
  "state_contents one_task =
     [\<lparr>task_id = js ''t1'', task_title = js ''Buy milk'', task_done = False\<rparr>] \<and>
   items (localStorage (snd one_task)) (js ''focustasks_9889'') =
     Some (JSON_stringify (state_contents one_task)) \<and>
   state_contents reloaded = [] \<and>
   returned (list (fst reloaded) (snd reloaded)) = []"
  by (simp add: ev)

text \<open>
  C2 asks that a stored value that cannot be deserialized leaves the new store with the
  empty list, that the failure is logged, and that nothing is thrown. With a text that
  is no JSON under the key, construction and the first \<^verbatim>\<open>list()\<close> give the empty
  list and throw nothing, but the console stays empty: the stored text is never read, so
  no failure is met and none is logged. The cause is the one of C1, the closure's
  \<^verbatim>\<open>init\<close> is never called.
\<close>

theorem construction_logs_nothing:
  "getItem (localStorage corrupt) (js ''focustasks_9889'') = Inr (Some (js ''{oops'')) \<and>
   state_contents on_corrupt = [] \<and>
   console (snd on_corrupt) = [] \<and>
   returned (list (fst on_corrupt) (snd on_corrupt)) = [] \<and>
   console (snd (snd (list (fst on_corrupt) (snd on_corrupt)))) = [] \<and>
   localStorage (snd (snd (list (fst on_corrupt) (snd on_corrupt)))) = localStorage corrupt"
  by (simp add: ev getItem_def corrupt_def on_corrupt_def)

subsection \<open>Adding a task\<close>

text \<open>
  Against C3 as it is worded (the new task always has \<open>done = false\<close>): a valid
  title and \<^verbatim>\<open>done: true\<close> in the argument give a task that is done.
\<close>

theorem add_done_counterexample:
  "trim (js ''x'') \<noteq> [] \<and>
   task_done (last (state_contents
     (run [Add \<lparr>arg_id = js ''a'', arg_title = Some (js ''x''), arg_done = Some True\<rparr>] store0)))"
  by (simp add: ev)

text \<open>
  C3, amended. For every argument whose title is not empty after trimming, \<^verbatim>\<open>add\<close>
  appends exactly one task at the end: the id of the argument, the trimmed title, and
  \<open>done\<close> as the argument gives it, \<open>false\<close> when the argument has none. The tasks
  that were there stay as they were, the length grows by one, and the call returns a list
  equal to the new contents.
\<close>

theorem add_appends:
  assumes "well_formed s w" and "arg_title c = Some t" and "trim t \<noteq> []"
    and "add c s w = (res, s', w')"
  shows "contents s' w' = contents s w @
           [\<lparr>task_id = arg_id c, task_title = trim t,
             task_done = (case arg_done c of None \<Rightarrow> False | Some d \<Rightarrow> d)\<rparr>] \<and>
         length (contents s' w') = length (contents s w) + 1 \<and>
         (\<exists>l. res = Inr l \<and> view (heap w') l = contents s' w')"
  using add_effect [OF assms(1-3)] assms(4) by auto

theorem add_appends_witness:
  "well_formed (fst store0) (snd store0) \<and> trim (js '' Buy milk '') \<noteq> [] \<and>
   state_contents (snd (add \<lparr>arg_id = js ''t1'', arg_title = Some (js '' Buy milk ''), arg_done = None\<rparr>
       (fst store0) (snd store0))) =
     [\<lparr>task_id = js ''t1'', task_title = js ''Buy milk'', task_done = False\<rparr>]"
proof -
  let ?c = "\<lparr>arg_id = js ''t1'', arg_title = Some (js '' Buy milk ''), arg_done = None\<rparr>"
  let ?r = "add ?c (fst store0) (snd store0)"
  have wf: "well_formed (fst store0) (snd store0)" by (simp add: ev)
  have v: "trim (js '' Buy milk '') \<noteq> []" by (simp add: ev)
  have tr: "trim (js '' Buy milk '') = js ''Buy milk''" by (simp add: ev)
  have c0: "contents (fst store0) (snd store0) = []" by (simp add: ev)
  have "?r = (fst ?r, fst (snd ?r), snd (snd ?r))" by simp
  from add_appends [OF wf _ v this] show ?thesis
    using wf v by (simp add: state_contents_def c0 tr)
qed

text \<open>
  C4. \<^verbatim>\<open>add\<close> with an absent title, an empty title or a title of white space only
  throws the validation error, and the store and everything around it (heap, backend,
  console) are exactly as before: nothing is appended, nothing is persisted.
\<close>

theorem add_rejects_blank_title:
  assumes "arg_title c = None \<or> arg_title c = Some [] \<or>
           (\<exists>t. arg_title c = Some t \<and> list_all isWhiteSpace t)"
  shows "add c s w = (Inl (Error (js ''Task title cannot be empty'')), s, w)"
proof -
  have "trim t = []" if "list_all isWhiteSpace t" for t
  proof -
    from that have d: "dropWhile isWhiteSpace t = []" by (simp add: list_all_iff)
    show ?thesis by (simp only: trim_def d rev.simps dropWhile.simps)
  qed
  with assms show ?thesis by (auto intro: add_invalid)
qed

theorem add_rejects_blank_title_witness:
  "add \<lparr>arg_id = js ''a'', arg_title = None, arg_done = None\<rparr> (fst store0) (snd store0) =
     (Inl (Error (js ''Task title cannot be empty'')), fst store0, snd store0) \<and>
   add \<lparr>arg_id = js ''a'', arg_title = Some (js []), arg_done = None\<rparr> (fst store0) (snd store0) =
     (Inl (Error (js ''Task title cannot be empty'')), fst store0, snd store0) \<and>
   list_all isWhiteSpace (js ''   '') \<and>
   add \<lparr>arg_id = js ''a'', arg_title = Some (js ''   ''), arg_done = None\<rparr> (fst store0) (snd store0) =
     (Inl (Error (js ''Task title cannot be empty'')), fst store0, snd store0)"
proof -
  have ws: "list_all isWhiteSpace (js ''   '')" by (simp add: js_def isWhiteSpace_def)
  show ?thesis
    using add_rejects_blank_title [of "\<lparr>arg_id = js ''a'', arg_title = None, arg_done = None\<rparr>" "fst store0" "snd store0"]
      add_rejects_blank_title [of "\<lparr>arg_id = js ''a'', arg_title = Some (js []), arg_done = None\<rparr>" "fst store0" "snd store0"]
      add_rejects_blank_title [of "\<lparr>arg_id = js ''a'', arg_title = Some (js ''   ''), arg_done = None\<rparr>" "fst store0" "snd store0"]
      ws
    by (simp add: js_def)
qed

subsection \<open>Toggling and removing\<close>

text \<open>
  C5. \<^verbatim>\<open>toggle(id)\<close> negates \<open>done\<close> of the tasks with that id and changes
  nothing else: ids, titles, the other tasks and the order stay. When no task has the id
  the list is unchanged, and toggling twice gives the list back. The call returns a list
  equal to the new contents.
\<close>

theorem toggle_flips_done:
  assumes "well_formed s w" and "toggle i s w = (l, s', w')"
  shows "contents s' w' =
           map (\<lambda>t. if task_id t = i then t\<lparr>task_done := \<not> task_done t\<rparr> else t) (contents s w) \<and>
         view (heap w') l = contents s' w' \<and>
         (i \<notin> task_id ` set (contents s w) \<longrightarrow> contents s' w' = contents s w) \<and>
         (\<forall>l2 s2 w2. toggle i s' w' = (l2, s2, w2) \<longrightarrow> contents s2 w2 = contents s w)"
proof -
  note te = toggle_effect [OF assms]
  have flip_eq: "flip i = (\<lambda>t. if task_id t = i then t\<lparr>task_done := \<not> task_done t\<rparr> else t)"
    by (rule ext) (simp add: flip_def)
  have absent: "map (flip i) ts = ts" if "i \<notin> task_id ` set ts" for ts
    using that by (induction ts) (auto simp: flip_def)
  have twice: "contents s2 w2 = contents s w" if "toggle i s' w' = (l2, s2, w2)" for l2 s2 w2
    using toggle_effect(1) [OF te(3) that] te(1) by (simp add: comp_def flip_flip)
  show ?thesis
    using te(1,2) absent twice unfolding flip_eq by auto
qed

theorem toggle_flips_done_witness:
  "well_formed (fst two_tasks) (snd two_tasks) \<and>
   state_contents two_tasks =
     [\<lparr>task_id = js ''t1'', task_title = js ''Buy milk'', task_done = False\<rparr>,
      \<lparr>task_id = js ''t2'', task_title = js ''Call home'', task_done = True\<rparr>] \<and>
   state_contents (snd (toggle (js ''t2'') (fst two_tasks) (snd two_tasks))) =
     [\<lparr>task_id = js ''t1'', task_title = js ''Buy milk'', task_done = False\<rparr>,
      \<lparr>task_id = js ''t2'', task_title = js ''Call home'', task_done = False\<rparr>]"
proof -
  let ?r = "toggle (js ''t2'') (fst two_tasks) (snd two_tasks)"
  note wf = well_formed_two_tasks
  note c = contents_two_tasks
  have "?r = (fst ?r, fst (snd ?r), snd (snd ?r))" by simp
  from toggle_flips_done [OF wf this] c wf show ?thesis
    by (simp add: state_contents_def js_def)
qed

text \<open>
  Against C6 as it is worded (the length drops by exactly one whenever the id occurs):
  with two tasks of the same id, one \<^verbatim>\<open>remove\<close> takes the length from 2 to 0.
\<close>

theorem remove_length_counterexample:
  "js ''a'' \<in> task_id ` set (state_contents twins) \<and>
   length (state_contents twins) = 2 \<and>
   length (state_contents (snd (remove (js ''a'') (fst twins) (snd twins)))) = 0"
  by (simp add: ev)

text \<open>
  C6, amended. \<^verbatim>\<open>remove(id)\<close> keeps, in their order and unchanged, exactly the tasks
  whose id differs: no task with the id is left, the length drops by the number of tasks
  that had the id (by exactly one when one task had it), and the list is unchanged when
  no task had it.
\<close>

theorem remove_filters:
  assumes "well_formed s w" and "remove i s w = (l, s', w')"
  shows "contents s' w' = filter (\<lambda>t. task_id t \<noteq> i) (contents s w) \<and>
         view (heap w') l = contents s' w' \<and>
         i \<notin> task_id ` set (contents s' w') \<and>
         length (contents s' w') + length (filter (\<lambda>t. task_id t = i) (contents s w)) =
           length (contents s w) \<and>
         (length (filter (\<lambda>t. task_id t = i) (contents s w)) = 1 \<longrightarrow>
            length (contents s' w') + 1 = length (contents s w)) \<and>
         (i \<notin> task_id ` set (contents s w) \<longrightarrow> contents s' w' = contents s w)"
proof -
  note re = remove_effect [OF assms]
  have len: "length (filter (\<lambda>t. task_id t \<noteq> i) ts) + length (filter (\<lambda>t. task_id t = i) ts) = length ts"
    for ts :: "task list"
    using sum_length_filter_compl [of "\<lambda>t. task_id t = i" ts] by simp
  have absent: "filter (\<lambda>t. task_id t \<noteq> i) ts = ts" if "i \<notin> task_id ` set ts" for ts :: "task list"
    using that by (induction ts) auto
  show ?thesis
    using re(1,2) len [of "contents s w"] absent [of "contents s w"] by auto
qed

theorem remove_filters_witness:
  "well_formed (fst two_tasks) (snd two_tasks) \<and>
   length (filter (\<lambda>t. task_id t = js ''t1'') (state_contents two_tasks)) = 1 \<and>
   length (state_contents two_tasks) = 2 \<and>
   state_contents (snd (remove (js ''t1'') (fst two_tasks) (snd two_tasks))) =
     [\<lparr>task_id = js ''t2'', task_title = js ''Call home'', task_done = True\<rparr>]"
proof -
  let ?r = "remove (js ''t1'') (fst two_tasks) (snd two_tasks)"
  note wf = well_formed_two_tasks
  note c = contents_two_tasks
  have "?r = (fst ?r, fst (snd ?r), snd (snd ?r))" by simp
  from remove_filters [OF wf this] c wf show ?thesis
    by (simp add: state_contents_def js_def)
qed

subsection \<open>Ids\<close>

text \<open>
  Against C9 as it is worded (ids stay unique for arbitrary ids passed to \<^verbatim>\<open>add\<close>):
  adding the same id twice to the empty store gives two tasks with one id.
\<close>

theorem unique_ids_counterexample:
  "distinct (map task_id (state_contents store0)) \<and>
   \<not> distinct (map task_id (state_contents
        (run [Add \<lparr>arg_id = js ''a'', arg_title = Some (js ''x''), arg_done = None\<rparr>,
              Add \<lparr>arg_id = js ''a'', arg_title = Some (js ''y''), arg_done = None\<rparr>] store0)))"
  by (simp add: ev)

text \<open>
  C9, amended. From a state whose ids are unique, every sequence of calls in which each
  \<^verbatim>\<open>add\<close> brings an id that no task of the list has at that moment leads to a state
  whose ids are unique; \<^verbatim>\<open>toggle\<close> and \<^verbatim>\<open>remove\<close> need no condition.
\<close>

theorem unique_ids_preserved:
  assumes "well_formed (fst st) (snd st)" and "distinct (map task_id (state_contents st))"
    and "fresh_ids cs st"
  shows "distinct (map task_id (state_contents (run cs st))) \<and>
         well_formed (fst (run cs st)) (snd (run cs st))"
  using assms
proof (induction cs arbitrary: st)
  case Nil
  then show ?case by (simp add: run_def)
next
  case (Cons c cs)
  obtain s w where st: "st = (s, w)" by (cases st)
  obtain s' w' where sw: "step c (s, w) = (s', w')" by (cases "step c (s, w)")
  from Cons.prems st
  have "well_formed s w" "distinct (map task_id (contents s w))"
    "case c of Add task \<Rightarrow> arg_id task \<notin> task_id ` set (contents s w) | _ \<Rightarrow> True"
    by (auto simp: state_contents_def split: call.splits)
  from step_keeps_unique_ids [OF this sw]
  have "well_formed (fst (step c st)) (snd (step c st))"
    "distinct (map task_id (state_contents (step c st)))"
    by (simp_all add: st sw state_contents_def)
  moreover from Cons.prems(3) have "fresh_ids cs (step c st)" by simp
  ultimately have "distinct (map task_id (state_contents (run cs (step c st)))) \<and>
      well_formed (fst (run cs (step c st))) (snd (run cs (step c st)))"
    by (rule Cons.IH)
  then show ?case by (simp add: run_def)
qed

theorem unique_ids_preserved_witness:
  "well_formed (fst two_tasks) (snd two_tasks) \<and>
   distinct (map task_id (state_contents two_tasks)) \<and>
   fresh_ids
     [Add \<lparr>arg_id = js ''t3'', arg_title = Some (js ''Sleep''), arg_done = None\<rparr>,
      Toggle (js ''t1''), Remove (js ''t2'')] two_tasks \<and>
   distinct (map task_id (state_contents
     (run [Add \<lparr>arg_id = js ''t3'', arg_title = Some (js ''Sleep''), arg_done = None\<rparr>,
           Toggle (js ''t1''), Remove (js ''t2'')] two_tasks)))"
proof -
  note wf = well_formed_two_tasks
  have d: "distinct (map task_id (state_contents two_tasks))"
    by (simp add: contents_two_tasks js_def)
  have f: "fresh_ids
     [Add \<lparr>arg_id = js ''t3'', arg_title = Some (js ''Sleep''), arg_done = None\<rparr>,
      Toggle (js ''t1''), Remove (js ''t2'')] two_tasks"
    by (simp add: contents_two_tasks js_def)
  from unique_ids_preserved [OF wf d f] wf d f show ?thesis by simp
qed

text \<open>
  C10. When several tasks have the id, \<^verbatim>\<open>toggle(id)\<close> negates \<open>done\<close> of every
  one of them, and \<^verbatim>\<open>remove(id)\<close> deletes every one of them in one call.
\<close>

theorem duplicate_ids_all_affected:
  assumes "well_formed s w" and "toggle i s w = (l1, s1, w1)" and "remove i s w = (l2, s2, w2)"
  shows "length (contents s1 w1) = length (contents s w) \<and>
         (\<forall>k < length (contents s w). task_id (contents s w ! k) = i \<longrightarrow>
            task_done (contents s1 w1 ! k) = (\<not> task_done (contents s w ! k))) \<and>
         (\<forall>t \<in> set (contents s2 w2). task_id t \<noteq> i) \<and>
         length (contents s2 w2) + length (filter (\<lambda>t. task_id t = i) (contents s w)) =
           length (contents s w)"
proof -
  note te = toggle_effect [OF assms(1,2)]
  note re = remove_effect [OF assms(1,3)]
  have len: "length (filter (\<lambda>t. task_id t \<noteq> i) ts) + length (filter (\<lambda>t. task_id t = i) ts) = length ts"
    for ts :: "task list"
    using sum_length_filter_compl [of "\<lambda>t. task_id t = i" ts] by simp
  show ?thesis
    using te(1) re(1) len [of "contents s w"] by (auto simp: flip_def)
qed

theorem duplicate_ids_all_affected_witness:
  "well_formed (fst twins) (snd twins) \<and>
   map task_id (state_contents twins) = [js ''a'', js ''a''] \<and>
   map task_done (state_contents twins) = [False, True] \<and>
   map task_done (state_contents (snd (toggle (js ''a'') (fst twins) (snd twins)))) = [True, False] \<and>
   state_contents (snd (remove (js ''a'') (fst twins) (snd twins))) = []"
proof -
  let ?t = "toggle (js ''a'') (fst twins) (snd twins)"
  let ?r = "remove (js ''a'') (fst twins) (snd twins)"
  note wf = well_formed_twins
  note c = contents_twins
  have t: "?t = (fst ?t, fst (snd ?t), snd (snd ?t))" by simp
  have r: "?r = (fst ?r, fst (snd ?r), snd (snd ?r))" by simp
  note th = duplicate_ids_all_affected [OF wf t r]
  have l: "length (state_contents (snd ?t)) = 2"
    using th c by (simp add: state_contents_def)
  have d0: "task_done (state_contents (snd ?t) ! 0) = True"
    using th c by (simp add: state_contents_def)
  have d1: "task_done (state_contents (snd ?t) ! 1) = False"
    using th c by (simp add: state_contents_def)
  have e: "state_contents (snd ?r) = []"
    using th c by (simp add: state_contents_def)
  have "map task_done (state_contents (snd ?t)) = [True, False]"
    using l d0 d1 by (auto simp: list_eq_iff_nth_eq less_Suc_eq numeral_2_eq_2)
  with wf c e show ?thesis by simp
qed

subsection \<open>Reading\<close>

text \<open>
  C7. \<^verbatim>\<open>list()\<close> leaves the store as it is and returns the tasks in order in a new
  array of new objects: the array is not the internal one, its elements are distinct
  objects allocated by this call, none of them an element of the internal array. Whatever
  a caller then writes into the returned array and its objects, the contents of the store
  and the result of the next \<^verbatim>\<open>list()\<close> are what they were.
\<close>

theorem list_returns_fresh_copy:
  assumes "well_formed s w" and "list s w = (r, s', w')"
  shows "s' = s \<and> localStorage w' = localStorage w \<and> console w' = console w \<and>
         view (heap w') r = contents s w \<and> contents s w' = contents s w \<and>
         r \<noteq> tasks s \<and> length (arrays (heap w)) \<le> r \<and>
         distinct (arrays (heap w') ! r) \<and>
         list_all (\<lambda>b. length (objects (heap w)) \<le> b) (arrays (heap w') ! r) \<and>
         set (arrays (heap w') ! r) \<inter> set (arrays (heap w') ! tasks s) = {} \<and>
         (\<forall>h. mutates_only [r] (arrays (heap w') ! r) (heap w') h \<longrightarrow>
              contents s (w'\<lparr>heap := h\<rparr>) = contents s w \<and>
              (\<forall>r2 s2 w2. list s (w'\<lparr>heap := h\<rparr>) = (r2, s2, w2) \<longrightarrow>
                 view (heap w2) r2 = contents s w))"
proof -
  note le = list_effect [OF assms]
  note e = assms(2) [unfolded list_eq [OF assms(1)]]
  from assms(1) have t: "tasks s < length (arrays (heap w))"
    and el: "\<forall>a \<in> set (arrays (heap w) ! tasks s). a < length (objects (heap w))"
    by (simp_all add: well_formed_def list_all_iff)
  from e have r: "r = length (arrays (heap w))" by simp
  from e have ret: "arrays (heap w') ! r =
      [length (objects (heap w)) ..< length (objects (heap w)) + length (contents s w)]"
    by auto
  from e t have int: "arrays (heap w') ! tasks s = arrays (heap w) ! tasks s"
    by (auto simp: nth_append)
  have disj: "set (arrays (heap w') ! r) \<inter> set (arrays (heap w') ! tasks s) = {}"
    unfolding ret int using el by fastforce
  have rt: "r \<noteq> tasks s" using r t by simp
  have after: "contents s (w'\<lparr>heap := h\<rparr>) = contents s w \<and>
       (\<forall>r2 s2 w2. list s (w'\<lparr>heap := h\<rparr>) = (r2, s2, w2) \<longrightarrow> view (heap w2) r2 = contents s w)"
    if m: "mutates_only [r] (arrays (heap w') ! r) (heap w') h" for h
  proof -
    have nr: "tasks s \<notin> set [r]" using rt by simp
    note mo = mutation_outside [OF le(4) m nr disj]
    have c: "contents s (w'\<lparr>heap := h\<rparr>) = contents s w" using mo(2) le(2) by simp
    have "view (heap w2) r2 = contents s w" if "list s (w'\<lparr>heap := h\<rparr>) = (r2, s2, w2)" for r2 s2 w2
      using list_effect(3) [OF mo(1) that] c by simp
    with c show ?thesis by blast
  qed
  have fresh: "distinct (arrays (heap w') ! r)"
    "list_all (\<lambda>b. length (objects (heap w)) \<le> b) (arrays (heap w') ! r)"
    unfolding ret by (simp_all add: list_all_iff)
  have le_r: "length (arrays (heap w)) \<le> r" using r by simp
  from le(1,5,6,3,2) rt le_r fresh disj after show ?thesis
    by blast
qed

theorem list_returns_fresh_copy_witness:
  "well_formed (fst two_tasks) (snd two_tasks) \<and>
   mutates_only [fst listed] (arrays (heap (snd (snd listed))) ! fst listed)
     (heap (snd (snd listed))) tampered \<and>
   view tampered (fst listed) = [] \<and>
   view (heap (snd (snd listed))) (fst listed) = state_contents two_tasks \<and>
   contents (fst two_tasks) ((snd (snd listed))\<lparr>heap := tampered\<rparr>) = state_contents two_tasks"
proof -
  note wf = well_formed_two_tasks
  have l: "list (fst two_tasks) (snd two_tasks) = (fst listed, fst (snd listed), snd (snd listed))"
    by (simp add: listed_def)
  have m: "mutates_only [fst listed] (arrays (heap (snd (snd listed))) ! fst listed)
     (heap (snd (snd listed))) tampered"
    by (simp add: ev)
  have v: "view tampered (fst listed) = []"
    by (simp add: ev)
  from list_returns_fresh_copy [OF wf l] m wf v show ?thesis
    by (simp add: state_contents_def)
qed

subsection \<open>The summary\<close>

text \<open>
  Against C8 as it is worded (\<open>pct\<close> equals the exact percentage rounded to one
  decimal): of 80 tasks with 23 done the exact percentage is 28.75, which
  \<^verbatim>\<open>toFixed(1)\<close> would print as \<^verbatim>\<open>"28.8"\<close>, and the code prints \<^verbatim>\<open>"28.7"\<close>,
  because the quotient and the product are rounded to binary64 first. It is no rule of
  rounding halves down either: of 16 tasks with 1 done the exact percentage is 6.25 and
  the code prints \<^verbatim>\<open>"6.3"\<close>.
\<close>

theorem percentage_tie_counterexample:
  "sum_active (summarize (done_of 23 80)) = 57 \<and>
   sum_done (summarize (done_of 23 80)) = 23 \<and>
   (100 * (23 / (57 + 23)) :: rat) = 2875 / 100 \<and>
   toFixed1 (100 * (23 / (57 + 23))) = js ''28.8'' \<and>
   sum_pct (summarize (done_of 23 80)) = JString (js ''28.7'') \<and>
   sum_active (summarize (done_of 1 16)) = 15 \<and>
   sum_done (summarize (done_of 1 16)) = 1 \<and>
   (100 * (1 / (15 + 1)) :: rat) = 625 / 100 \<and>
   sum_pct (summarize (done_of 1 16)) = JString (js ''6.3'')"
  by code_simp

text \<open>
  C8, amended. \<^verbatim>\<open>summarize\<close> reads the \<^verbatim>\<open>done\<close> fields of the elements and nothing
  else, so it is a function of the value of the list. For every list that fits a
  JavaScript array, \<open>active\<close> is the number of tasks that are not done and \<open>done\<close>
  the number of tasks that are; for the empty list the result is
  \<^verbatim>\<open>{active: 0, done: 0, pct: 0}\<close>; otherwise \<open>pct\<close> is the string, with one decimal,
  of a multiple \<open>n / 10\<close> of 0.1 within 0.05 of \<open>100 \<sqdot> done / (active + done)\<close>. When
  that percentage is not exactly midway between two multiples of 0.1, this is the string
  \<^verbatim>\<open>toFixed(1)\<close> gives for the exact percentage; when it is midway, it is one of the
  two neighbours.
\<close>

theorem summarize_counts_and_percentage:
  assumes "length ts < 2 ^ 32"
  shows "sum_active (summarize ts) = length (filter (\<lambda>t. \<not> task_done t) ts) \<and>
         sum_done (summarize ts) = length (filter task_done ts) \<and>
         (ts = [] \<longrightarrow> summarize ts = \<lparr>sum_active = 0, sum_done = 0, sum_pct = JNumber 0\<rparr>) \<and>
         (ts \<noteq> [] \<longrightarrow>
            (\<exists>n. sum_pct (summarize ts) = JString (decimal (n div 10) @ [0x2E, digit (n mod 10)]) \<and>
                 \<bar>of_nat n / 10 -
                   100 * (of_nat (sum_done (summarize ts)) /
                          of_nat (sum_active (summarize ts) + sum_done (summarize ts)))\<bar>
                   \<le> (1 / 20 :: rat))) \<and>
         (ts \<noteq> [] \<and>
          frac (1000 * (of_nat (sum_done (summarize ts)) /
                        of_nat (sum_active (summarize ts) + sum_done (summarize ts))) :: rat) \<noteq> 1 / 2 \<longrightarrow>
            sum_pct (summarize ts) =
              JString (toFixed1 (100 * (of_nat (sum_done (summarize ts)) /
                         of_nat (sum_active (summarize ts) + sum_done (summarize ts))))))"
proof -
  define a where "a = length (filter (\<lambda>t. \<not> task_done t) ts)"
  define d where "d = length (filter task_done ts)"
  define x :: rat where "x = of_nat d / of_nat (a + d)"
  define p where "p = fl (fl x * 100)"
  define m where "m = \<lfloor>p * 10 + 1 / 2\<rfloor>"
  have tot: "a + d = length ts"
    unfolding a_def d_def using sum_length_filter_compl [of task_done ts] by simp
  have sa: "sum_active (summarize ts) = a" and sd: "sum_done (summarize ts) = d"
    by (simp_all add: summarize_def Let_def count_active count_done a_def d_def)
  have sp: "sum_pct (summarize ts) = (if a + d = 0 then JNumber 0 else JString (toFixed1 p))"
    by (simp add: summarize_def Let_def count_active count_done a_def d_def p_def x_def)
  have empty: "summarize ts = \<lparr>sum_active = 0, sum_done = 0, sum_pct = JNumber 0\<rparr>" if "ts = []"
    using that by (simp add: summarize_def)
  have x0: "0 \<le> x" by (simp add: x_def)
  have facts: "sum_pct (summarize ts) = JString (fixed1 (nat m)) \<and>
      \<bar>of_int m / 10 - 100 * x\<bar> \<le> 1 / 20 \<and> 0 \<le> m" if "ts \<noteq> []"
  proof -
    from that tot have t0: "0 < a + d" by simp
    from assms tot have t32: "a + d < 2 ^ 32" by simp
    have "(of_nat d :: rat) \<le> of_nat (a + d)" by (simp only: of_nat_le_iff)
    moreover have "(0::rat) < of_nat (a + d)" using t0 by (simp only: of_nat_0_less_iff)
    ultimately have x1: "x \<le> 1" unfolding x_def by (simp only: divide_le_eq_1_pos)
    note pe = percent_error [OF x0 x1, folded p_def]
    have m0: "0 \<le> m" using pe(2) by (simp add: m_def)
    have "\<not> p < 0" using pe(2) by simp
    then have str: "toFixed1 p = fixed1 (nat m)" by (simp add: toFixed1_def m_def)
    from nearest_tenth [OF t0 t32, of p d] pe(1)
    have "\<bar>of_int m / 10 - 100 * x\<bar> \<le> 1 / 20" by (simp add: m_def x_def)
    with str sp t0 m0 show ?thesis by simp
  qed
  have pctn: "\<exists>n. sum_pct (summarize ts) = JString (decimal (n div 10) @ [0x2E, digit (n mod 10)]) \<and>
      \<bar>of_nat n / 10 - 100 * x\<bar> \<le> (1 / 20 :: rat)" if "ts \<noteq> []"
  proof -
    from facts [OF that] have "of_nat (nat m) = (of_int m :: rat)" by simp
    with facts [OF that] show ?thesis by (intro exI [of _ "nat m"]) (simp add: fixed1_def)
  qed
  have exact: "sum_pct (summarize ts) = JString (toFixed1 (100 * x))"
    if "ts \<noteq> []" and "frac (1000 * x) \<noteq> 1 / 2"
  proof -
    from facts [OF that(1)] have "\<bar>of_int m - 1000 * x\<bar> \<le> 1 / 2"
      by (simp add: abs_if split: if_splits)
    from nearest_is_rounding [OF this that(2)] have "\<lfloor>100 * x * 10 + 1 / 2\<rfloor> = m"
      by (simp add: mult.commute mult.left_commute)
    moreover have "\<not> 100 * x < 0" using x0 by simp
    ultimately have "toFixed1 (100 * x) = fixed1 (nat m)" by (simp add: toFixed1_def)
    with facts [OF that(1)] show ?thesis by simp
  qed
  show ?thesis using sa sd empty pctn exact by (simp add: a_def d_def x_def)
qed

theorem summarize_counts_and_percentage_witness:
  "length two_of_three < 2 ^ 32 \<and> two_of_three \<noteq> [] \<and>
   frac (1000 * (of_nat 2 / of_nat (1 + 2)) :: rat) \<noteq> 1 / 2 \<and>
   toFixed1 (100 * (of_nat 2 / of_nat (1 + 2))) = js ''66.7'' \<and>
   summarize [] = \<lparr>sum_active = 0, sum_done = 0, sum_pct = JNumber 0\<rparr> \<and>
   summarize two_of_three = \<lparr>sum_active = 1, sum_done = 2, sum_pct = JString (js ''66.7'')\<rparr>"
proof -
  have l: "length two_of_three < 2 ^ 32" by (simp add: two_of_three_def)
  have l0: "length ([] :: task list) < 2 ^ 32" by simp
  have ne: "two_of_three \<noteq> []" by (simp add: two_of_three_def)
  have f: "frac (1000 * (of_nat 2 / of_nat (1 + 2)) :: rat) \<noteq> 1 / 2" by code_simp
  have t: "toFixed1 (100 * (of_nat 2 / of_nat (1 + 2))) = js ''66.7''" by code_simp
  have c: "sum_active (summarize two_of_three) = 1" "sum_done (summarize two_of_three) = 2"
    by code_simp+
  from summarize_counts_and_percentage [OF l]
  have "two_of_three \<noteq> [] \<and>
        frac (1000 * (of_nat (sum_done (summarize two_of_three)) /
              of_nat (sum_active (summarize two_of_three) + sum_done (summarize two_of_three))) :: rat)
          \<noteq> 1 / 2 \<longrightarrow>
        sum_pct (summarize two_of_three) =
          JString (toFixed1 (100 * (of_nat (sum_done (summarize two_of_three)) /
             of_nat (sum_active (summarize two_of_three) + sum_done (summarize two_of_three)))))"
    by blast
  then have "sum_pct (summarize two_of_three) = JString (toFixed1 (100 * (of_nat 2 / of_nat (1 + 2))))"
    unfolding c using ne f by blast
  then have p: "sum_pct (summarize two_of_three) = JString (js ''66.7'')"
    by (simp only: t)
  have e: "summarize two_of_three = \<lparr>sum_active = 1, sum_done = 2, sum_pct = JString (js ''66.7'')\<rparr>"
    using c p by (cases "summarize two_of_three") simp
  from summarize_counts_and_percentage [OF l0]
  have e0: "summarize [] = \<lparr>sum_active = 0, sum_done = 0, sum_pct = JNumber 0\<rparr>" by blast
  from l ne f t e0 e show ?thesis by blast
qed

end
